theory Spec2Isabelle
  imports Complex_Main "HOL-Library.Sublist"
begin

section \<open>Rule Set and Matcher\<close>

text \<open>
  Strings are byte strings (UTF-8). \<open>str.lower()\<close> belongs to the Python library and is
  a parameter of the model: every definition that lower-cases takes the function \<open>lower\<close>
  as its first argument, and every theorem holds for whatever function it is.
\<close>

text \<open>
  A compiled regular expression of the \<open>re\<close> module: the fragment the rule set uses
  (literal characters, \<open>.\<close>, concatenation, alternation, \<open>*\<close>), matched by derivatives.
  \<open>ic\<close> is the flag \<open>re.IGNORECASE\<close>, under which a literal character matches the two
  cases of the same ASCII letter. \<open>search\<close> is \<open>bool(pattern.search(s))\<close>: some substring
  of \<open>s\<close> matches.
\<close>

definition ascii_lower_char :: "char \<Rightarrow> char" where
  "ascii_lower_char c =
     (case map_of (zip ''ABCDEFGHIJKLMNOPQRSTUVWXYZ'' ''abcdefghijklmnopqrstuvwxyz'') c of
        Some d \<Rightarrow> d
      | None \<Rightarrow> c)"

datatype regex = Never | Empty | Lit char | Dot | Cat regex regex | Or regex regex | Rep regex

fun nullable :: "regex \<Rightarrow> bool" where
  "nullable Never = False"
| "nullable Empty = True"
| "nullable (Lit d) = False"
| "nullable Dot = False"
| "nullable (Cat r s) = (nullable r \<and> nullable s)"
| "nullable (Or r s) = (nullable r \<or> nullable s)"
| "nullable (Rep r) = True"

definition chr_eq :: "bool \<Rightarrow> char \<Rightarrow> char \<Rightarrow> bool" where
  "chr_eq ic c d = (if ic then ascii_lower_char c = ascii_lower_char d else c = d)"

fun deriv :: "bool \<Rightarrow> char \<Rightarrow> regex \<Rightarrow> regex" where
  "deriv ic c Never = Never"
| "deriv ic c Empty = Never"
| "deriv ic c (Lit d) = (if chr_eq ic c d then Empty else Never)"
| "deriv ic c Dot = (if c = CHR 0x0A then Never else Empty)"
| "deriv ic c (Cat r s) =
     (if nullable r then Or (Cat (deriv ic c r) s) (deriv ic c s) else Cat (deriv ic c r) s)"
| "deriv ic c (Or r s) = Or (deriv ic c r) (deriv ic c s)"
| "deriv ic c (Rep r) = Cat (deriv ic c r) (Rep r)"

fun match_here :: "bool \<Rightarrow> regex \<Rightarrow> string \<Rightarrow> bool" where
  "match_here ic r [] = nullable r"
| "match_here ic r (c # cs) = (nullable r \<or> match_here ic (deriv ic c r) cs)"

fun search :: "bool \<Rightarrow> regex \<Rightarrow> string \<Rightarrow> bool" where
  "search ic r [] = nullable r"
| "search ic r (c # cs) = (match_here ic r (c # cs) \<or> search ic r cs)"

definition lits :: "string \<Rightarrow> regex" where
  "lits s = foldr (\<lambda>c r. Cat (Lit c) r) s Empty"

text \<open>A rule: a \<open>str\<close>, or \<open>re.compile(r, flags)\<close> with its \<open>IGNORECASE\<close> flag.\<close>

datatype pattern = Str string | Re bool regex

record rules =
  names :: "pattern list"
  extensions :: "string list"
  folders :: "pattern list"

definition JUNK_FILES :: rules where
  "JUNK_FILES = \<lparr>
     names = [Str ''.DS_Store'', Str ''desktop.ini'', Str ''Thumbs.db'', Str ''.bash_history'',
       Str ''.zsh_history'', Str ''fish_history'', Str ''.viminfo'', Str ''.localized'',
       Str ''.sharkgi'', Str ''.lesshst'', Str ''.python_history'',
       Re False (Cat (lits ''.zcompdump-'') (Rep Dot))],
     extensions = [''.log'', ''.tmp'', ''temp'', ''.cache''],
     folders = [Str ''$RECYCLE.BIN'', Str ''Logs'', Str ''CrashReporter'', Str ''tmp'',
       Str ''temp'', Str ''log'', Str ''logs'', Str ''.Trash'', Str ''.fseventsd'',
       Str ''.Spotlight-V100'', Str ''.zsh_sessions'', Str ''System Volume Information'',
       Str ''Photo Booth Library'', Str ''Automatically Add to Music.localized'',
       Str ''Media.localized'', Str ''Videos Library.tvlibrary'',
       Str [CHR 0xE7, CHR 0xBD, CHR 0x91, CHR 0xE6, CHR 0x98, CHR 0x93, CHR 0xE4, CHR 0xBA,
            CHR 0x91, CHR 0xE9, CHR 0x9F, CHR 0xB3, CHR 0xE4, CHR 0xB9, CHR 0x90],
       Re True (lits ''Cache'')] \<rparr>"

text \<open>
  \<^verbatim>\<open>
  def matches_patterns(filename: str, patterns: list) -> bool:
      filename = filename.lower()
      return any(
          (pattern.lower() == filename if isinstance(pattern, str)
          else bool(pattern.search(filename)))
          for pattern in patterns
          if pattern)
  \<close>
  \<open>if pattern\<close> keeps the truthy rules: every compiled expression, and every string but
  the empty one.
\<close>

fun truthy :: "pattern \<Rightarrow> bool" where
  "truthy (Str s) = (s \<noteq> [])"
| "truthy (Re ic r) = True"

fun pattern_test :: "(string \<Rightarrow> string) \<Rightarrow> string \<Rightarrow> pattern \<Rightarrow> bool" where
  "pattern_test lower filename (Str s) = (lower s = filename)"
| "pattern_test lower filename (Re ic r) = search ic r filename"

definition matches_patterns :: "(string \<Rightarrow> string) \<Rightarrow> string \<Rightarrow> pattern list \<Rightarrow> bool" where
  "matches_patterns lower filename patterns =
     (let filename = lower filename
      in list_ex (pattern_test lower filename) (filter truthy patterns))"

text \<open>
  What the specification calls a satisfied rule. A literal rule: equality with the whole
  name, up to case. A regular-expression rule: its pattern is found somewhere in the
  candidate, under the rule's own case policy.
\<close>

fun rule_satisfied :: "(string \<Rightarrow> string) \<Rightarrow> pattern \<Rightarrow> string \<Rightarrow> bool" where
  "rule_satisfied lower (Str s) candidate = (lower s = lower candidate)"
| "rule_satisfied lower (Re ic r) candidate = search ic r candidate"

text \<open>
  For the examples, whose names are ASCII: \<open>str.lower()\<close> on a string of ASCII
  characters.
\<close>

definition ascii_lower :: "string \<Rightarrow> string" where
  "ascii_lower s = map ascii_lower_char s"

section \<open>Filesystem provider\<close>

text \<open>
  A path is the list of its components; \<open>str(path)\<close> is injective on such lists, so the
  model compares paths where the code compares their strings. An entry is a regular
  file or a directory with its \<open>st_size\<close> and \<open>st_mtime\<close>, or an entry whose metadata
  cannot be read: \<open>stat\<close> on it raises \<open>PermissionError\<close>. The children of a directory
  are listed in the order \<open>scandir\<close> gives them. Symbolic links are not modelled.
\<close>

type_synonym path = "string list"

datatype node = File nat nat | Dir nat nat "(string \<times> node) list" | Denied

datatype error = PermissionError | OSError string

fun is_dir :: "node \<Rightarrow> error + bool" where
  "is_dir (Dir s m es) = Inr True"
| "is_dir (File s m) = Inr False"
| "is_dir Denied = Inl PermissionError"

fun is_file :: "node \<Rightarrow> error + bool" where
  "is_file (File s m) = Inr True"
| "is_file (Dir s m es) = Inr False"
| "is_file Denied = Inl PermissionError"

text \<open>\<open>stat\<close> gives the pair \<open>(st_size, st_mtime)\<close>.\<close>

fun stat :: "node \<Rightarrow> error + nat \<times> nat" where
  "stat (File s m) = Inr (s, m)"
| "stat (Dir s m es) = Inr (s, m)"
| "stat Denied = Inl PermissionError"

text \<open>
  \<open>path.rglob('*')\<close>, for the directory at \<open>p\<close> with the children \<open>es\<close>: the directories
  are visited in pre-order from \<open>p\<close>, and at each one all of its children are yielded,
  each path with the entry it denotes. A path that is not a directory yields nothing.
\<close>

definition children :: "path \<Rightarrow> (string \<times> node) list \<Rightarrow> (path \<times> node) list" where
  "children p es = map (\<lambda>(n, c). (p @ [n], c)) es"

fun rglob_node :: "path \<Rightarrow> node \<Rightarrow> (path \<times> node) list"
  and rglob_subdirs :: "path \<Rightarrow> (string \<times> node) list \<Rightarrow> (path \<times> node) list" where
  "rglob_node p (Dir s m es) = children p es @ rglob_subdirs p es"
| "rglob_node p (File s m) = []"
| "rglob_node p Denied = []"
| "rglob_subdirs p [] = []"
| "rglob_subdirs p ((n, c) # es) = rglob_node (p @ [n]) c @ rglob_subdirs p es"

definition rglob :: "path \<Rightarrow> (string \<times> node) list \<Rightarrow> (path \<times> node) list" where
  "rglob p es = children p es @ rglob_subdirs p es"

text \<open>\<open>path.name\<close>, \<open>path.suffix\<close> and \<open>path.parents\<close> of \<open>pathlib\<close>.\<close>

definition name :: "path \<Rightarrow> string" where
  "name p = (if p = [] then [] else last p)"

fun rfind :: "char \<Rightarrow> string \<Rightarrow> nat option" where
  "rfind c [] = None"
| "rfind c (x # xs) =
     (case rfind c xs of
        Some i \<Rightarrow> Some (Suc i)
      | None \<Rightarrow> if x = c then Some 0 else None)"

definition suffix :: "path \<Rightarrow> string" where
  "suffix p =
     (case rfind (CHR ''.'') (name p) of
        Some i \<Rightarrow> if 0 < i \<and> i < length (name p) - 1 then drop i (name p) else []
      | None \<Rightarrow> [])"

definition parents :: "path \<Rightarrow> path list" where
  "parents p = butlast (prefixes p)"

section \<open>Message Channel\<close>

datatype kind = KFile | KFolder

datatype event =
    found_item path kind nat nat
  | scan_done nat nat
  | clean_error path string
  | clean_done

fun is_found_item :: "event \<Rightarrow> bool" where
  "is_found_item (found_item p k s m) = True"
| "is_found_item _ = False"

fun is_scan_done :: "event \<Rightarrow> bool" where
  "is_scan_done (scan_done t c) = True"
| "is_scan_done _ = False"

fun is_clean_error :: "event \<Rightarrow> bool" where
  "is_clean_error (clean_error p msg) = True"
| "is_clean_error _ = False"

fun is_clean_done :: "event \<Rightarrow> bool" where
  "is_clean_done clean_done = True"
| "is_clean_done _ = False"

fun item_size :: "event \<Rightarrow> nat" where
  "item_size (found_item p k s m) = s"
| "item_size _ = 0"

record channel =
  queue :: "event list"

section \<open>Traversal Engine: \<open>Core.scanner\<close>\<close>

text \<open>
  The local variables of \<open>scanner\<close> and the queue it writes to. The modification time
  is kept as the number \<open>st_mtime\<close>; its rendering by \<open>strftime\<close> is not modelled.
\<close>

record scan_state = channel +
  total_size :: nat
  file_count :: nat
  processed_paths :: "path set"

text \<open>
  \<open>sum(f.stat().st_size for f in root_path.rglob('*') if f.is_file())\<close>: an error
  raised by \<open>is_file\<close> or \<open>stat\<close> leaves the sum.
\<close>

fun sum_sizes :: "(path \<times> node) list \<Rightarrow> error + nat" where
  "sum_sizes [] = Inr 0"
| "sum_sizes ((f, nd) # fs) =
     (case is_file nd of
        Inl e \<Rightarrow> Inl e
      | Inr False \<Rightarrow> sum_sizes fs
      | Inr True \<Rightarrow>
          (case stat nd of
             Inl e \<Rightarrow> Inl e
           | Inr (s, m) \<Rightarrow>
               (case sum_sizes fs of Inl e \<Rightarrow> Inl e | Inr t \<Rightarrow> Inr (s + t))))"

definition emit :: "scan_state \<Rightarrow> path \<Rightarrow> kind \<Rightarrow> nat \<Rightarrow> nat \<Rightarrow> scan_state" where
  "emit st root_path k sz modified =
     st\<lparr>queue := queue st @ [found_item root_path k sz modified],
        total_size := total_size st + sz,
        file_count := file_count st + 1\<rparr>"

text \<open>
  \<^verbatim>\<open>
  for root_path in scan_path.rglob("*"):
      if self.abort_event.is_set():
          return
      try:
          if any(str(parent) in processed_paths for parent in root_path.parents):
              continue
          if root_path.is_dir():
              if matches_patterns(root_path.name, JUNK_FILES["folders"]):
                  size = sum(f.stat().st_size for f in root_path.rglob('*') if f.is_file())
                  modified = ... root_path.stat().st_mtime ...
                  self.queue.put(("found_item", (root_path, "Folder", size, modified)))
                  total_size += size
                  file_count += 1
                  processed_paths.add(str(root_path))
          elif root_path.is_file():
              if (matches_patterns(root_path.name, JUNK_FILES["names"]) or
                  root_path.suffix.lower() in [ext.lower() for ext in JUNK_FILES["extensions"]]):
                  size = root_path.stat().st_size
                  modified = ... root_path.stat().st_mtime ...
                  self.queue.put(("found_item", (root_path, "File", size, modified)))
                  total_size += size
                  file_count += 1
      except (OSError, PermissionError):
          continue
  if not self.abort_event.is_set():
      self.queue.put(("scan_done", (total_size, file_count)))
  \<close>
  \<open>try_entry\<close> is the body of the \<open>try\<close> for one entry. \<open>Inl\<close> is an \<open>OSError\<close> that
  reaches the \<open>except\<close> clause; every call that can raise comes before the first
  assignment, so the state is then unchanged.
\<close>

definition try_entry ::
  "(string \<Rightarrow> string) \<Rightarrow> rules \<Rightarrow> scan_state \<Rightarrow> path \<times> node \<Rightarrow> error + scan_state" where
  "try_entry lower rs st e =
     (case e of (root_path, nd) \<Rightarrow>
        if list_ex (\<lambda>parent. parent \<in> processed_paths st) (parents root_path) then Inr st
        else
          (case is_dir nd of
             Inl err \<Rightarrow> Inl err
           | Inr True \<Rightarrow>
               if matches_patterns lower (name root_path) (folders rs) then
                 (case sum_sizes (rglob_node root_path nd) of
                    Inl err \<Rightarrow> Inl err
                  | Inr sz \<Rightarrow>
                      (case stat nd of
                         Inl err \<Rightarrow> Inl err
                       | Inr (s, modified) \<Rightarrow>
                           Inr ((emit st root_path KFolder sz modified)
                                 \<lparr>processed_paths := insert root_path (processed_paths st)\<rparr>)))
               else Inr st
           | Inr False \<Rightarrow>
               (case is_file nd of
                  Inl err \<Rightarrow> Inl err
                | Inr True \<Rightarrow>
                    if matches_patterns lower (name root_path) (names rs)
                       \<or> lower (suffix root_path) \<in> set (map lower (extensions rs))
                    then
                      (case stat nd of
                         Inl err \<Rightarrow> Inl err
                       | Inr (sz, modified) \<Rightarrow> Inr (emit st root_path KFile sz modified))
                    else Inr st
                | Inr False \<Rightarrow> Inr st)))"

definition scan_entry ::
  "(string \<Rightarrow> string) \<Rightarrow> rules \<Rightarrow> scan_state \<Rightarrow> path \<times> node \<Rightarrow> scan_state" where
  "scan_entry lower rs st e =
     (case try_entry lower rs st e of Inl err \<Rightarrow> st | Inr st' \<Rightarrow> st')"

text \<open>
  The \<open>for\<close> loop. \<open>abort i\<close> is what \<open>self.abort_event.is_set()\<close> answers at the
  \<open>i\<close>-th check of the run. The result says whether the loop was left by \<open>return\<close>.
\<close>

fun scanner_loop ::
  "(string \<Rightarrow> string) \<Rightarrow> rules \<Rightarrow> (nat \<Rightarrow> bool) \<Rightarrow> nat \<Rightarrow> scan_state \<Rightarrow> (path \<times> node) list
     \<Rightarrow> bool \<times> scan_state" where
  "scanner_loop lower rs abort i st [] = (False, st)"
| "scanner_loop lower rs abort i st (e # es) =
     (if abort i then (True, st)
      else scanner_loop lower rs abort (Suc i) (scan_entry lower rs st e) es)"

definition scan_init :: scan_state where
  "scan_init = \<lparr>queue = [], total_size = 0, file_count = 0, processed_paths = {}\<rparr>"

text \<open>
  \<open>scanner\<close> for the scan root \<open>scan_path\<close>, a directory with the children \<open>entries\<close>,
  under the rule set \<open>rs\<close> (\<open>JUNK_FILES\<close> in the source) and the library's \<open>lower\<close>. The
  result is the content of the queue when the worker ends.
\<close>

definition scanner ::
  "(string \<Rightarrow> string) \<Rightarrow> rules \<Rightarrow> (nat \<Rightarrow> bool) \<Rightarrow> path \<Rightarrow> (string \<times> node) list \<Rightarrow> event list" where
  "scanner lower rs abort scan_path entries =
     (let found = rglob scan_path entries in
      case scanner_loop lower rs abort 0 scan_init found of
        (True, st) \<Rightarrow> queue st
      | (False, st) \<Rightarrow>
          if \<not> abort (length found)
          then queue st @ [scan_done (total_size st) (file_count st)]
          else queue st)"



text \<open>
  The bookkeeping invariant of the loop: the queue holds found items only, one per count,
  and the running total is the sum of their sizes.
\<close>

definition counted :: "scan_state \<Rightarrow> bool" where
  "counted st \<longleftrightarrow>
     list_all is_found_item (queue st)
     \<and> file_count st = length (queue st)
     \<and> total_size st = sum_list (map item_size (queue st))"




text \<open>
  The scenario of the specification: the root holds \<open>a/.DS_Store\<close> (0 bytes), \<open>a/Logs/\<close>
  with one file of 100 bytes, and \<open>a/keep.txt\<close>.
\<close>

definition demo_tree :: "(string \<times> node) list" where
  "demo_tree =
     [(''a'', Dir 4096 7
        [(''.DS_Store'', File 0 1),
         (''Logs'', Dir 4096 2 [(''x.txt'', File 100 3)]),
         (''keep.txt'', File 5 4)])]"

section \<open>Deletion Pass: \<open>Core.cleaner\<close>\<close>

text \<open>
  The disk is the list of the children of the filesystem root; the empty path is the root
  directory itself. \<open>resolve\<close> finds the entry a path denotes: nothing below a regular
  file, and an unreadable entry for everything below an unreadable one.
\<close>

fun lookup :: "node \<Rightarrow> path \<Rightarrow> node option"
  and lookup_in :: "(string \<times> node) list \<Rightarrow> string \<Rightarrow> path \<Rightarrow> node option" where
  "lookup nd [] = Some nd"
| "lookup (Dir s m es) (n # p) = lookup_in es n p"
| "lookup (File s m) (n # p) = None"
| "lookup Denied (n # p) = Some Denied"
| "lookup_in [] n p = None"
| "lookup_in ((k, c) # es) n p = (if k = n then lookup c p else lookup_in es n p)"

definition resolve :: "(string \<times> node) list \<Rightarrow> path \<Rightarrow> node option" where
  "resolve d p = lookup (Dir 0 0 d) p"

text \<open>
  \<open>path.exists()\<close> and \<open>path.is_file()\<close>: a missing path answers \<open>False\<close>, an
  unreadable one raises \<open>PermissionError\<close>.
\<close>

definition path_exists :: "(string \<times> node) list \<Rightarrow> path \<Rightarrow> error + bool" where
  "path_exists d p =
     (case resolve d p of
        None \<Rightarrow> Inr False
      | Some nd \<Rightarrow> (case stat nd of Inl e \<Rightarrow> Inl e | Inr x \<Rightarrow> Inr True))"

definition path_is_file :: "(string \<times> node) list \<Rightarrow> path \<Rightarrow> error + bool" where
  "path_is_file d p = (case resolve d p of None \<Rightarrow> Inr False | Some nd \<Rightarrow> is_file nd)"

text \<open>
  \<open>update_in f n p es\<close> rewrites the entry at the path \<open>n # p\<close> below the children \<open>es\<close>
  by \<open>f\<close>, and takes it out of its directory when \<open>f\<close> answers \<open>None\<close>.
\<close>

fun update_at :: "(node \<Rightarrow> node option) \<Rightarrow> path \<Rightarrow> node \<Rightarrow> node option"
  and update_in ::
    "(node \<Rightarrow> node option) \<Rightarrow> string \<Rightarrow> path \<Rightarrow> (string \<times> node) list \<Rightarrow> (string \<times> node) list" where
  "update_at f [] nd = f nd"
| "update_at f (n # p) (Dir s m es) = Some (Dir s m (update_in f n p es))"
| "update_at f (n # p) (File s m) = Some (File s m)"
| "update_at f (n # p) Denied = Some Denied"
| "update_in f n p [] = []"
| "update_in f n p ((k, c) # es) =
     (if k = n then (case update_at f p c of None \<Rightarrow> es | Some c' \<Rightarrow> (k, c') # es)
      else (k, c) # update_in f n p es)"

text \<open>
  The delete operations of the provider. \<open>fault p\<close> is the error the removal of the
  entry at \<open>p\<close> fails with, if it fails. \<open>unlink\<close> raises it. \<open>rmtree\<close> with
  \<open>ignore_errors=True\<close> removes what it can: an entry that cannot be removed stays, with
  the directories above it.
\<close>

definition remove_entry :: "(string \<times> node) list \<Rightarrow> path \<Rightarrow> (string \<times> node) list" where
  "remove_entry d p = (case p of [] \<Rightarrow> d | n # q \<Rightarrow> update_in (\<lambda>nd. None) n q d)"

definition unlink ::
  "(path \<Rightarrow> error option) \<Rightarrow> (string \<times> node) list \<Rightarrow> path \<Rightarrow> error + (string \<times> node) list" where
  "unlink fault d p =
     (case resolve d p of
        Some (File s m) \<Rightarrow>
          (case fault p of Some e \<Rightarrow> Inl e | None \<Rightarrow> Inr (remove_entry d p))
      | Some (Dir s m es) \<Rightarrow> Inl PermissionError
      | Some Denied \<Rightarrow> Inl PermissionError
      | None \<Rightarrow> Inl (OSError ''[Errno 2] No such file or directory''))"

fun prune :: "(path \<Rightarrow> error option) \<Rightarrow> path \<Rightarrow> node \<Rightarrow> node option"
  and prune_in ::
    "(path \<Rightarrow> error option) \<Rightarrow> path \<Rightarrow> (string \<times> node) list \<Rightarrow> (string \<times> node) list" where
  "prune fault p (File s m) = (if fault p = None then None else Some (File s m))"
| "prune fault p Denied = Some Denied"
| "prune fault p (Dir s m es) =
     (case prune_in fault p es of
        [] \<Rightarrow> if fault p = None then None else Some (Dir s m [])
      | e # es' \<Rightarrow> Some (Dir s m (e # es')))"
| "prune_in fault p [] = []"
| "prune_in fault p ((n, c) # es) =
     (case prune fault (p @ [n]) c of
        None \<Rightarrow> prune_in fault p es
      | Some c' \<Rightarrow> (n, c') # prune_in fault p es)"

definition rmtree ::
  "(path \<Rightarrow> error option) \<Rightarrow> (string \<times> node) list \<Rightarrow> path \<Rightarrow> (string \<times> node) list" where
  "rmtree fault d p =
     (case p of [] \<Rightarrow> prune_in fault [] d | n # q \<Rightarrow> update_in (prune fault p) n q d)"

text \<open>\<open>str(e)\<close> for an \<open>OSError\<close> raised on the path \<open>p\<close>.\<close>

definition str_path :: "path \<Rightarrow> string" where
  "str_path p = concat (map (\<lambda>n. CHR ''/'' # n) p)"

fun strerror :: "error \<Rightarrow> string" where
  "strerror PermissionError = ''[Errno 13] Permission denied''"
| "strerror (OSError msg) = msg"

definition str_error :: "error \<Rightarrow> path \<Rightarrow> string" where
  "str_error e p = strerror e @ '': '' @ [CHR 0x27] @ str_path p @ [CHR 0x27]"

text \<open>
  The state of the deletion pass: the queue, the disk, and the calls that have returned
  normally (removals and \<open>time.sleep\<close>), in order.
\<close>

datatype call = Unlink path | Rmtree path | Sleep rat

record clean_state = channel +
  disk :: "(string \<times> node) list"
  calls :: "call list"

text \<open>\<open>delay = target_duration / item_count if item_count > 0 else 0\<close>, as a rational.\<close>

definition pacing_delay :: "nat \<Rightarrow> rat" where
  "pacing_delay item_count = (if item_count > 0 then (3 / 2) / of_nat item_count else 0)"

text \<open>
  \<^verbatim>\<open>
  for path in items:
      if self.abort_event.is_set():
          break
      try:
          if path.exists():
              if path.is_file():
                  path.unlink()
                  time.sleep(delay)
              else:
                  shutil.rmtree(path, ignore_errors=True)
                  time.sleep(delay)
      except (OSError, PermissionError) as e:
          self.queue.put(("clean_error", (path, str(e))))
  self.queue.put(("clean_done", None))
  \<close>
  \<open>try_clean\<close> is the body of the \<open>try\<close> for one path; \<open>Inl\<close> is the error the \<open>except\<close>
  clause gets. \<open>abort i\<close> is what \<open>is_set()\<close> answers at the \<open>i\<close>-th check.
\<close>

definition try_clean ::
  "(path \<Rightarrow> error option) \<Rightarrow> rat \<Rightarrow> clean_state \<Rightarrow> path \<Rightarrow> error + clean_state" where
  "try_clean fault delay st p =
     (case path_exists (disk st) p of
        Inl e \<Rightarrow> Inl e
      | Inr False \<Rightarrow> Inr st
      | Inr True \<Rightarrow>
          (case path_is_file (disk st) p of
             Inl e \<Rightarrow> Inl e
           | Inr True \<Rightarrow>
               (case unlink fault (disk st) p of
                  Inl e \<Rightarrow> Inl e
                | Inr d \<Rightarrow> Inr (st\<lparr>disk := d, calls := calls st @ [Unlink p, Sleep delay]\<rparr>))
           | Inr False \<Rightarrow>
               Inr (st\<lparr>disk := rmtree fault (disk st) p,
                        calls := calls st @ [Rmtree p, Sleep delay]\<rparr>)))"

definition clean_step ::
  "(path \<Rightarrow> error option) \<Rightarrow> rat \<Rightarrow> clean_state \<Rightarrow> path \<Rightarrow> clean_state" where
  "clean_step fault delay st p =
     (case try_clean fault delay st p of
        Inl e \<Rightarrow> st\<lparr>queue := queue st @ [clean_error p (str_error e p)]\<rparr>
      | Inr st' \<Rightarrow> st')"

fun cleaner_loop ::
  "(path \<Rightarrow> error option) \<Rightarrow> rat \<Rightarrow> (nat \<Rightarrow> bool) \<Rightarrow> nat \<Rightarrow> clean_state \<Rightarrow> path list
     \<Rightarrow> clean_state" where
  "cleaner_loop fault delay abort i st [] = st"
| "cleaner_loop fault delay abort i st (p # ps) =
     (if abort i then st
      else cleaner_loop fault delay abort (Suc i) (clean_step fault delay st p) ps)"

definition cleaner ::
  "(path \<Rightarrow> error option) \<Rightarrow> (nat \<Rightarrow> bool) \<Rightarrow> (string \<times> node) list \<Rightarrow> path list \<Rightarrow> clean_state" where
  "cleaner fault abort d items =
     (let delay = pacing_delay (length items);
          st = cleaner_loop fault delay abort 0 \<lparr>queue = [], disk = d, calls = []\<rparr> items
      in st\<lparr>queue := queue st @ [clean_done]\<rparr>)"

text \<open>
  The pass described path by path. \<open>visited\<close> are the paths reached before the abort
  flag is seen set. \<open>raises\<close> is the error the deletion of a path ends with:
  an unreadable path, or a regular file whose removal fails; a missing path raises
  nothing, and neither does a directory. \<open>after\<close> is the disk once the path has been
  dealt with, \<open>removed\<close> the removals that returned normally, \<open>reported\<close> the failure
  events.
\<close>

fun visited :: "(nat \<Rightarrow> bool) \<Rightarrow> nat \<Rightarrow> 'a list \<Rightarrow> 'a list" where
  "visited abort i [] = []"
| "visited abort i (x # xs) = (if abort i then [] else x # visited abort (Suc i) xs)"

definition raises :: "(path \<Rightarrow> error option) \<Rightarrow> (string \<times> node) list \<Rightarrow> path \<Rightarrow> error option" where
  "raises fault d p =
     (case resolve d p of
        None \<Rightarrow> None
      | Some Denied \<Rightarrow> Some PermissionError
      | Some (File s m) \<Rightarrow> fault p
      | Some (Dir s m es) \<Rightarrow> None)"

definition after ::
  "(path \<Rightarrow> error option) \<Rightarrow> (string \<times> node) list \<Rightarrow> path \<Rightarrow> (string \<times> node) list" where
  "after fault d p =
     (case resolve d p of
        Some (File s m) \<Rightarrow> if fault p = None then remove_entry d p else d
      | Some (Dir s m es) \<Rightarrow> rmtree fault d p
      | _ \<Rightarrow> d)"

definition removal :: "(path \<Rightarrow> error option) \<Rightarrow> (string \<times> node) list \<Rightarrow> path \<Rightarrow> call list" where
  "removal fault d p =
     (case resolve d p of
        Some (File s m) \<Rightarrow> if fault p = None then [Unlink p] else []
      | Some (Dir s m es) \<Rightarrow> [Rmtree p]
      | _ \<Rightarrow> [])"

fun removed :: "(path \<Rightarrow> error option) \<Rightarrow> (string \<times> node) list \<Rightarrow> path list \<Rightarrow> call list" where
  "removed fault d [] = []"
| "removed fault d (p # ps) = removal fault d p @ removed fault (after fault d p) ps"

fun reported :: "(path \<Rightarrow> error option) \<Rightarrow> (string \<times> node) list \<Rightarrow> path list \<Rightarrow> event list" where
  "reported fault d [] = []"
| "reported fault d (p # ps) =
     (case raises fault d p of
        Some e \<Rightarrow> [clean_error p (str_error e p)]
      | None \<Rightarrow> [])
     @ reported fault (after fault d p) ps"

text \<open>
  A provider whose removals never fail, and an abort flag that is never set. Three
  regular files are on the disk; \<open>/tmp/b.tmp\<close> is not.
\<close>

definition no_fault :: "path \<Rightarrow> error option" where
  "no_fault p = None"

definition never_set :: "nat \<Rightarrow> bool" where
  "never_set i = False"

definition demo_disk :: "(string \<times> node) list" where
  "demo_disk =
     [(''tmp'', Dir 4096 9 [(''a.log'', File 10 1), (''c.log'', File 30 3), (''d.log'', File 40 4)])]"

section \<open>Engine lifecycle: \<open>Core.scan\<close> and \<open>Core.clean\<close>\<close>

text \<open>
  \<^verbatim>\<open>
  def scan(self, scan_path: Path) -> None:
      self.abort_event.clear()
      self.queue = queue.Queue()
      self.thread = None
      self.thread = threading.Thread(target=self.scanner, args=(scan_path,))
      self.thread.start()
  \<close>
  and the same for \<open>clean\<close> with \<open>self.cleaner\<close> and \<open>items\<close>. A thread is named by
  its target and arguments; \<open>running\<close> are the threads that have been started and have
  not ended. A call that raised would answer \<open>Inl\<close>; neither method has such a path.
\<close>

datatype job = ScannerJob path | CleanerJob "path list"

record core = channel +
  abort_event :: bool
  thread :: "job option"
  running :: "job list"

definition scan :: "core \<Rightarrow> path \<Rightarrow> error + core" where
  "scan self scan_path =
     Inr (self\<lparr>abort_event := False, queue := [],
               thread := Some (ScannerJob scan_path),
               running := running self @ [ScannerJob scan_path]\<rparr>)"

definition clean :: "core \<Rightarrow> path list \<Rightarrow> error + core" where
  "clean self items =
     Inr (self\<lparr>abort_event := False, queue := [],
               thread := Some (CleanerJob items),
               running := running self @ [CleanerJob items]\<rparr>)"

text \<open>The Running state: \<open>self.thread\<close> is set and alive.\<close>

definition is_running :: "core \<Rightarrow> bool" where
  "is_running self = (case thread self of None \<Rightarrow> False | Some j \<Rightarrow> j \<in> set (running self))"

definition demo_core :: core where
  "demo_core =
     \<lparr>queue = [found_item [''home'', ''x.log''] KFile 1 1], abort_event = False,
      thread = Some (ScannerJob [''home'']), running = [ScannerJob [''home'']]\<rparr>"

section \<open>Size Formatter: \<open>Core.format_size\<close>\<close>

text \<open>
  \<^verbatim>\<open>
  def format_size(size: int) -> str:
      for unit in ["B", "KB", "MB", "GB"]:
          if size < 1024: break
          size /= 1024
      return f"{size:.1f} {unit}"
  \<close>
  The byte count is a Python int; \<open>size /= 1024\<close> is true division. The model keeps the
  scaled value as an exact rational (a division by 1024 is exact in binary floating point
  for every count below \<open>2^53\<close>). \<open>fmt_1f\<close> is the format \<open>.1f\<close>: the value rounded to
  one decimal, a tie going to the even digit.
\<close>

function show_nat :: "nat \<Rightarrow> string" where
  "show_nat n =
     (if n < 10 then [''0123456789'' ! n]
      else show_nat (n div 10) @ [''0123456789'' ! (n mod 10)])"
  by pat_completeness auto
termination
  by (relation "measure id") auto

declare show_nat.simps [simp del]

definition tenths :: "rat \<Rightarrow> nat" where
  "tenths x =
     (let f = \<lfloor>10 * x\<rfloor>; r = 10 * x - of_int f
      in nat (if r < 1 / 2 then f else if 1 / 2 < r then f + 1
              else if even f then f else f + 1))"

definition fmt_1f :: "rat \<Rightarrow> string" where
  "fmt_1f x = show_nat (tenths x div 10) @ ''.'' @ show_nat (tenths x mod 10)"

text \<open>
  The \<open>for\<close> loop with its \<open>break\<close>: \<open>unit\<close> keeps the value of the last iteration when
  the list is exhausted, and the division of that last iteration has then been done.
\<close>

fun format_loop :: "rat \<Rightarrow> string \<Rightarrow> string list \<Rightarrow> rat \<times> string" where
  "format_loop sz unit [] = (sz, unit)"
| "format_loop sz unit (u # us) =
     (if sz < 1024 then (sz, u) else format_loop (sz / 1024) u us)"

definition format_size :: "nat \<Rightarrow> string" where
  "format_size sz =
     (case format_loop (of_nat sz) [] [''B'', ''KB'', ''MB'', ''GB''] of
        (sz', unit) \<Rightarrow> fmt_1f sz' @ '' '' @ unit)"

section \<open>Theorems\<close>

subsection \<open>Matcher\<close>

text \<open>
  Claim C2, as the code has it. \<open>matches_patterns\<close> lower-cases the candidate before it
  tries any rule, so a regular expression is not evaluated on the candidate under its own
  case policy. The rule \<open>.zcompdump-.*\<close> of the program, compiled without flags and so
  case-sensitive, is not found in \<open>.ZCOMPDUMP-h\<close>, and no other rule of the category
  is satisfied by that name, yet the matcher answers true; and a case-sensitive rule
  \<open>Cache\<close> is found in the name \<open>Cache\<close>, yet the matcher answers false.
\<close>

theorem matcher_case_policy_counterexample:
  "matches_patterns ascii_lower ''.ZCOMPDUMP-h'' (names JUNK_FILES)
   \<and> \<not> (\<exists>p \<in> set (names JUNK_FILES). rule_satisfied ascii_lower p ''.ZCOMPDUMP-h'')
   \<and> rule_satisfied ascii_lower (Re False (lits ''Cache'')) ''Cache''
   \<and> \<not> matches_patterns ascii_lower ''Cache'' [Re False (lits ''Cache'')]"
  by code_simp

text \<open>
  Claim C2, amended. For every candidate name and every list of rules, the matcher
  answers true exactly when at least one rule of the list is satisfied in this sense: a
  literal rule, not empty, whose lower-cased text is equal to the whole lower-cased name;
  or a regular expression whose pattern is found somewhere in the lower-cased candidate,
  under the rule's own flags. The candidate is lower-cased for every rule, whatever case
  policy the rule declares.
\<close>

theorem matches_patterns_lowered_candidate:
  "matches_patterns lower filename patterns \<longleftrightarrow>
     (\<exists>s. Str s \<in> set patterns \<and> s \<noteq> [] \<and> lower s = lower filename)
     \<or> (\<exists>ic r. Re ic r \<in> set patterns \<and> search ic r (lower filename))"
proof -
  have "matches_patterns lower filename patterns \<longleftrightarrow>
      (\<exists>p \<in> set patterns. truthy p \<and> pattern_test lower (lower filename) p)"
    by (auto simp: matches_patterns_def list_ex_iff)
  also have "\<dots> \<longleftrightarrow>
      (\<exists>s. Str s \<in> set patterns \<and> s \<noteq> [] \<and> lower s = lower filename)
      \<or> (\<exists>ic r. Re ic r \<in> set patterns \<and> search ic r (lower filename))"
  proof
    assume "\<exists>p \<in> set patterns. truthy p \<and> pattern_test lower (lower filename) p"
    then obtain p where p: "p \<in> set patterns" "truthy p"
      "pattern_test lower (lower filename) p"
      by blast
    show "(\<exists>s. Str s \<in> set patterns \<and> s \<noteq> [] \<and> lower s = lower filename)
      \<or> (\<exists>ic r. Re ic r \<in> set patterns \<and> search ic r (lower filename))"
    proof (cases p)
      case (Str s)
      with p have "Str s \<in> set patterns" "s \<noteq> []" "lower s = lower filename"
        by simp_all
      then show ?thesis by blast
    next
      case (Re ic r)
      with p have "Re ic r \<in> set patterns" "search ic r (lower filename)"
        by simp_all
      then show ?thesis by blast
    qed
  next
    assume "(\<exists>s. Str s \<in> set patterns \<and> s \<noteq> [] \<and> lower s = lower filename)
      \<or> (\<exists>ic r. Re ic r \<in> set patterns \<and> search ic r (lower filename))"
    then show "\<exists>p \<in> set patterns. truthy p \<and> pattern_test lower (lower filename) p"
    proof
      assume "\<exists>s. Str s \<in> set patterns \<and> s \<noteq> [] \<and> lower s = lower filename"
      then obtain s where "Str s \<in> set patterns" "truthy (Str s)"
        "pattern_test lower (lower filename) (Str s)"
        by auto
      then show ?thesis by blast
    next
      assume "\<exists>ic r. Re ic r \<in> set patterns \<and> search ic r (lower filename)"
      then obtain ic r where "Re ic r \<in> set patterns" "truthy (Re ic r)"
        "pattern_test lower (lower filename) (Re ic r)"
        by auto
      then show ?thesis by blast
    qed
  qed
  finally show ?thesis .
qed

lemma demo_literal_rule:
  "ascii_lower ''Logs'' = ascii_lower ''LOGS''"
  "search False (lits ''og'') (ascii_lower ''LOGS'')"
  by code_simp+

theorem matches_patterns_lowered_candidate_witness:
  "matches_patterns ascii_lower ''LOGS'' [Str ''Logs'']
   \<and> matches_patterns ascii_lower ''LOGS'' [Re False (lits ''og'')]"
proof -
  have "\<exists>s. Str s \<in> set [Str ''Logs''] \<and> s \<noteq> [] \<and> ascii_lower s = ascii_lower ''LOGS''"
    using demo_literal_rule(1) by (intro exI [of _ "''Logs''"]) simp
  then have a: "matches_patterns ascii_lower ''LOGS'' [Str ''Logs'']"
    using matches_patterns_lowered_candidate
      [where lower = ascii_lower and filename = "''LOGS''" and patterns = "[Str ''Logs'']"]
    by blast
  have "\<exists>ic r. Re ic r \<in> set [Re False (lits ''og'')] \<and> search ic r (ascii_lower ''LOGS'')"
    using demo_literal_rule(2) by (intro exI [of _ False] exI [of _ "lits ''og''"]) simp
  then have b: "matches_patterns ascii_lower ''LOGS'' [Re False (lits ''og'')]"
    using matches_patterns_lowered_candidate
      [where lower = ascii_lower and filename = "''LOGS''"
         and patterns = "[Re False (lits ''og'')]"]
    by blast
  from a b show ?thesis by simp
qed

subsection \<open>Traversal Engine: counting\<close>

lemma found_item_not_scan_done: "is_found_item ev \<Longrightarrow> \<not> is_scan_done ev"
  by (cases ev) simp_all

lemma counted_no_scan_done: "counted st \<Longrightarrow> filter is_scan_done (queue st) = []"
  by (auto simp: counted_def list_all_iff filter_empty_conv found_item_not_scan_done)

lemma counted_init: "counted scan_init"
  by (simp add: counted_def scan_init_def)

lemma counted_emit: "counted st \<Longrightarrow> counted (emit st p k sz m)"
  by (simp add: counted_def emit_def)

lemma counted_processed:
  "counted st \<Longrightarrow> counted (st\<lparr>processed_paths := P\<rparr>)"
  by (simp add: counted_def)

lemma counted_try_entry: "counted st \<Longrightarrow> try_entry lower rs st e = Inr st' \<Longrightarrow> counted st'"
  by (auto simp: try_entry_def counted_emit counted_processed
      split: prod.splits if_splits sum.splits bool.splits)

lemma counted_scan_entry: "counted st \<Longrightarrow> counted (scan_entry lower rs st e)"
  by (auto simp: scan_entry_def counted_try_entry split: sum.splits)

lemma counted_scanner_loop:
  "counted st \<Longrightarrow> counted (snd (scanner_loop lower rs abort i st es))"
  by (induction es arbitrary: i st) (simp_all add: counted_scan_entry)

lemma scanner_loop_completes:
  "\<forall>k < length es. \<not> abort (i + k) \<Longrightarrow>
   scanner_loop lower rs abort i st es = (False, foldl (scan_entry lower rs) st es)"
proof (induction es arbitrary: i st)
  case Nil
  show ?case by simp
next
  case (Cons e es)
  from Cons.prems have "\<not> abort i" by force
  moreover have "\<forall>k < length es. \<not> abort (Suc i + k)"
    using Cons.prems by force
  ultimately show ?case
    using Cons.IH [of "Suc i" "scan_entry lower rs st e"] by simp
qed

lemma scanner_loop_aborts:
  "abort (i + k) \<Longrightarrow> k \<le> length es \<Longrightarrow>
   \<exists>j \<le> k. scanner_loop lower rs abort i st es = (j < length es \<and> abort (i + j), foldl (scan_entry lower rs) st (take j es))
     \<and> (j < k \<longrightarrow> abort (i + j))"
proof (induction es arbitrary: i st k)
  case Nil
  then show ?case by simp
next
  case (Cons e es)
  show ?case
  proof (cases "abort i")
    case True
    then show ?thesis by (intro exI [of _ 0]) simp
  next
    case False
    with Cons.prems obtain k' where k: "k = Suc k'"
      by (cases k) auto
    with Cons.prems have "abort (Suc i + k')" "k' \<le> length es" by simp_all
    from Cons.IH [OF this, of "scan_entry lower rs st e"]
    obtain j where j: "j \<le> k'"
      "scanner_loop lower rs abort (Suc i) (scan_entry lower rs st e) es =
         (j < length es \<and> abort (Suc i + j), foldl (scan_entry lower rs) (scan_entry lower rs st e) (take j es))"
      "j < k' \<longrightarrow> abort (Suc i + j)"
      by blast
    with False k show ?thesis
      by (intro exI [of _ "Suc j"]) simp
  qed
qed

lemma demo_rglob_length: "length (rglob [''root''] demo_tree) = 5"
  by code_simp

lemma demo_scan:
  "scanner ascii_lower JUNK_FILES (\<lambda>i. False) [''root''] demo_tree =
     [found_item [''root'', ''a'', ''.DS_Store''] KFile 0 1,
      found_item [''root'', ''a'', ''Logs''] KFolder 100 2,
      scan_done 100 2]"
  by code_simp

lemma demo_scan_abort:
  "scanner ascii_lower JUNK_FILES (\<lambda>i. 2 \<le> i) [''root''] demo_tree =
     [found_item [''root'', ''a'', ''.DS_Store''] KFile 0 1]"
  by code_simp

text \<open>
  Claim C4. A scan that runs to the end of the enumeration with no abort observed at any
  check emits exactly one \<open>scan_done\<close>, and its item count is the number of
  \<open>found_item\<close> events of the run.
\<close>

theorem scan_done_item_count:
  assumes "\<forall>i \<le> length (rglob scan_path entries). \<not> abort i"
  shows "\<exists>t. filter is_scan_done (scanner lower rs abort scan_path entries) =
           [scan_done t (length (filter is_found_item (scanner lower rs abort scan_path entries)))]"
proof -
  let ?found = "rglob scan_path entries"
  let ?st = "foldl (scan_entry lower rs) scan_init ?found"
  from assms have "\<forall>k < length ?found. \<not> abort (0 + k)" by simp
  then have loop: "scanner_loop lower rs abort 0 scan_init ?found = (False, ?st)"
    by (rule scanner_loop_completes)
  from assms have last: "\<not> abort (length ?found)" by simp
  have "counted (snd (scanner_loop lower rs abort 0 scan_init ?found))"
    by (rule counted_scanner_loop [OF counted_init])
  with loop have c: "counted ?st" by simp
  have out: "scanner lower rs abort scan_path entries =
      queue ?st @ [scan_done (total_size ?st) (file_count ?st)]"
    using loop last by (simp add: scanner_def Let_def)
  from c have f: "filter is_found_item (queue ?st) = queue ?st"
    by (simp add: counted_def list_all_iff)
  from c have s: "filter is_scan_done (queue ?st) = []"
    by (rule counted_no_scan_done)
  from c have n: "file_count ?st = length (queue ?st)"
    by (simp add: counted_def)
  show ?thesis
    unfolding out by (simp add: f s n)
qed

theorem scan_done_item_count_witness:
  "filter is_scan_done (scanner ascii_lower JUNK_FILES (\<lambda>i. False) [''root''] demo_tree) = [scan_done 100 2]
   \<and> length (filter is_found_item (scanner ascii_lower JUNK_FILES (\<lambda>i. False) [''root''] demo_tree)) = 2"
  using scan_done_item_count
    [where scan_path = "[''root'']" and entries = demo_tree and abort = "\<lambda>i. False"
       and rs = JUNK_FILES and lower = ascii_lower]
  by (simp add: demo_scan)

text \<open>
  Claim C10. In such a scan the total size of the \<open>scan_done\<close> event is the sum of the
  sizes of the \<open>found_item\<close> events of the run.
\<close>

theorem scan_done_total_size:
  assumes "\<forall>i \<le> length (rglob scan_path entries). \<not> abort i"
  shows "\<exists>c. filter is_scan_done (scanner lower rs abort scan_path entries) =
           [scan_done (sum_list (map item_size
              (filter is_found_item (scanner lower rs abort scan_path entries)))) c]"
proof -
  let ?found = "rglob scan_path entries"
  let ?st = "foldl (scan_entry lower rs) scan_init ?found"
  from assms have "\<forall>k < length ?found. \<not> abort (0 + k)" by simp
  then have loop: "scanner_loop lower rs abort 0 scan_init ?found = (False, ?st)"
    by (rule scanner_loop_completes)
  from assms have last: "\<not> abort (length ?found)" by simp
  have "counted (snd (scanner_loop lower rs abort 0 scan_init ?found))"
    by (rule counted_scanner_loop [OF counted_init])
  with loop have c: "counted ?st" by simp
  have out: "scanner lower rs abort scan_path entries =
      queue ?st @ [scan_done (total_size ?st) (file_count ?st)]"
    using loop last by (simp add: scanner_def Let_def)
  from c have f: "filter is_found_item (queue ?st) = queue ?st"
    by (simp add: counted_def list_all_iff)
  from c have s: "filter is_scan_done (queue ?st) = []"
    by (rule counted_no_scan_done)
  from c have n: "total_size ?st = sum_list (map item_size (queue ?st))"
    by (simp add: counted_def)
  show ?thesis
    unfolding out by (simp add: f s n)
qed

theorem scan_done_total_size_witness:
  "filter is_scan_done (scanner ascii_lower JUNK_FILES (\<lambda>i. False) [''root''] demo_tree) = [scan_done 100 2]
   \<and> sum_list (map item_size
        (filter is_found_item (scanner ascii_lower JUNK_FILES (\<lambda>i. False) [''root''] demo_tree))) = 100"
  using scan_done_total_size
    [where scan_path = "[''root'']" and entries = demo_tree and abort = "\<lambda>i. False"
       and rs = JUNK_FILES and lower = ascii_lower]
  by (simp add: demo_scan)

text \<open>
  Claim C5. When the abort flag is seen set at some check of the run (one of the checks
  of the loop, or the check after it), the scan emits no \<open>scan_done\<close>: the queue holds
  the items found in the entries visited before the observation, and nothing else.
\<close>

theorem scanner_abort_no_summary:
  assumes "abort k" and "k \<le> length (rglob scan_path entries)"
  shows "filter is_scan_done (scanner lower rs abort scan_path entries) = []
         \<and> (\<exists>j \<le> k. scanner lower rs abort scan_path entries =
               queue (foldl (scan_entry lower rs) scan_init (take j (rglob scan_path entries))))"
proof -
  let ?found = "rglob scan_path entries"
  from assms have "abort (0 + k)" by simp
  from scanner_loop_aborts
    [where abort = abort and i = 0 and k = k and es = ?found and lower = lower and rs = rs
       and st = scan_init, OF this assms(2)]
  obtain j where j: "j \<le> k"
    "scanner_loop lower rs abort 0 scan_init ?found =
       (j < length ?found \<and> abort j, foldl (scan_entry lower rs) scan_init (take j ?found))"
    "j < k \<longrightarrow> abort j"
    by auto
  let ?st = "foldl (scan_entry lower rs) scan_init (take j ?found)"
  have ab: "j < length ?found \<or> abort (length ?found)"
  proof (cases "j < k")
    case True
    with assms(2) show ?thesis by simp
  next
    case False
    with j(1) have "j = k" by simp
    with assms show ?thesis by (cases "k < length ?found") auto
  qed
  have abj: "j < length ?found \<Longrightarrow> abort j"
    using j(1,3) assms(1) by (cases "j < k") auto
  have out: "scanner lower rs abort scan_path entries = queue ?st"
    using j(2) ab abj by (auto simp: scanner_def Let_def split: bool.splits)
  have "counted (snd (scanner_loop lower rs abort 0 scan_init ?found))"
    by (rule counted_scanner_loop [OF counted_init])
  with j(2) have "counted ?st" by simp
  then have "filter is_scan_done (queue ?st) = []"
    by (rule counted_no_scan_done)
  with out j(1) show ?thesis by auto
qed

theorem scanner_abort_no_summary_witness:
  "filter is_scan_done (scanner ascii_lower JUNK_FILES (\<lambda>i. 2 \<le> i) [''root''] demo_tree) = []
   \<and> scanner ascii_lower JUNK_FILES (\<lambda>i. 2 \<le> i) [''root''] demo_tree =
       [found_item [''root'', ''a'', ''.DS_Store''] KFile 0 1]"
  using scanner_abort_no_summary
    [where abort = "\<lambda>i. 2 \<le> i" and k = 2 and scan_path = "[''root'']" and entries = demo_tree
       and rs = JUNK_FILES and lower = ascii_lower]
  by (simp add: demo_scan_abort demo_rglob_length)

subsection \<open>Traversal Engine: pruning\<close>
























lemma demo_logs:
  "([''root'', ''a'', ''Logs''], Dir 4096 2 [(''x.txt'', File 100 3)])
     \<in> set (rglob [''root''] demo_tree)"
  by code_simp


subsection \<open>Deletion Pass\<close>

lemma clean_step_eq:
  "clean_step fault delay st p =
     st\<lparr>queue := queue st @ (case raises fault (disk st) p of
                                Some e \<Rightarrow> [clean_error p (str_error e p)]
                              | None \<Rightarrow> []),
        disk := after fault (disk st) p,
        calls := calls st @ concat (map (\<lambda>c. [c, Sleep delay]) (removal fault (disk st) p))\<rparr>"
proof (cases "resolve (disk st) p")
  case None
  then show ?thesis
    by (simp add: clean_step_def try_clean_def path_exists_def raises_def after_def removal_def)
next
  case (Some nd)
  show ?thesis
  proof (cases nd)
    case (File s m)
    with Some show ?thesis
      by (cases "fault p")
        (simp_all add: clean_step_def try_clean_def path_exists_def path_is_file_def
          unlink_def raises_def after_def removal_def)
  next
    case (Dir s m es)
    with Some show ?thesis
      by (simp add: clean_step_def try_clean_def path_exists_def path_is_file_def
          raises_def after_def removal_def)
  next
    case Denied
    with Some show ?thesis
      by (simp add: clean_step_def try_clean_def path_exists_def raises_def after_def
          removal_def)
  qed
qed

lemma cleaner_loop_visited:
  "cleaner_loop fault delay abort i st ps =
     foldl (clean_step fault delay) st (visited abort i ps)"
  by (induction ps arbitrary: i st) simp_all

lemma foldl_clean_step:
  "foldl (clean_step fault delay) st ps =
     st\<lparr>queue := queue st @ reported fault (disk st) ps,
        disk := foldl (after fault) (disk st) ps,
        calls := calls st @ concat (map (\<lambda>c. [c, Sleep delay]) (removed fault (disk st) ps))\<rparr>"
proof (induction ps arbitrary: st)
  case Nil
  show ?case by simp
next
  case (Cons p ps)
  have step: "foldl (clean_step fault delay) st (p # ps) =
      foldl (clean_step fault delay) (clean_step fault delay st p) ps"
    by simp
  show ?case
    unfolding step Cons.IH [of "clean_step fault delay st p"]
    by (simp add: clean_step_eq)
qed

lemma cleaner_eq:
  "cleaner fault abort d items =
     \<lparr>queue = reported fault d (visited abort 0 items) @ [clean_done],
      disk = foldl (after fault) d (visited abort 0 items),
      calls = concat (map (\<lambda>c. [c, Sleep (pacing_delay (length items))])
                (removed fault d (visited abort 0 items)))\<rparr>"
  by (simp add: cleaner_def Let_def cleaner_loop_visited foldl_clean_step)

lemma reported_errors: "list_all is_clean_error (reported fault d ps)"
  by (induction ps arbitrary: d) (simp_all split: option.splits)

lemma reported_no_done: "filter is_clean_done (reported fault d ps) = []"
proof -
  have "is_clean_error ev \<Longrightarrow> \<not> is_clean_done ev" for ev
    by (cases ev) simp_all
  with reported_errors [of fault d ps] show ?thesis
    by (auto simp: list_all_iff filter_empty_conv)
qed

lemma visited_take:
  "\<forall>j < k. \<not> abort (i + j) \<Longrightarrow> abort (i + k) \<Longrightarrow> k < length xs \<Longrightarrow>
   visited abort i xs = take k xs"
proof (induction xs arbitrary: i k)
  case Nil
  then show ?case by simp
next
  case (Cons x xs)
  show ?case
  proof (cases k)
    case 0
    with Cons.prems show ?thesis by simp
  next
    case (Suc k')
    with Cons.prems have "\<not> abort i" by force
    moreover have "\<forall>j < k'. \<not> abort (Suc i + j)"
      using Cons.prems(1) Suc by force
    moreover have "abort (Suc i + k')" "k' < length xs"
      using Cons.prems(2,3) Suc by simp_all
    ultimately show ?thesis
      using Cons.IH [of k' "Suc i"] Suc by simp
  qed
qed

text \<open>
  Claim C1, as the code has it. A path that is missing on disk is skipped by the test
  \<open>path.exists()\<close> and produces no event: with three paths of which the second is
  missing, the pass removes the two others and puts \<open>clean_done\<close> alone.
\<close>

theorem clean_missing_path_counterexample:
  "resolve demo_disk [''tmp'', ''b.tmp''] = None
   \<and> cleaner no_fault never_set demo_disk
       [[''tmp'', ''a.log''], [''tmp'', ''b.tmp''], [''tmp'', ''c.log'']] =
     \<lparr>queue = [clean_done],
      disk = [(''tmp'', Dir 4096 9 [(''d.log'', File 40 4)])],
      calls = [Unlink [''tmp'', ''a.log''], Sleep (1 / 2),
               Unlink [''tmp'', ''c.log''], Sleep (1 / 2)]\<rparr>"
  by code_simp


text \<open>
  Claim C1, amended. Each visited path whose deletion raises (the path cannot be read,
  or the removal of an existing regular file fails) produces exactly one \<open>clean_error\<close>
  with the path and the description of the error, and the pass goes on from the disk
  as it is; a missing path and a directory produce no event; one \<open>clean_done\<close> ends the
  queue.
\<close>

theorem clean_reports_raised_errors:
  "queue (cleaner fault abort d items) = reported fault d (visited abort 0 items) @ [clean_done]
   \<and> disk (cleaner fault abort d items) = foldl (after fault) d (visited abort 0 items)"
  by (simp add: cleaner_eq)


lemma demo_fault_reported:
  "reported (\<lambda>p. if p = [''tmp'', ''c.log''] then Some PermissionError else None) demo_disk
     (visited (\<lambda>i. False) 0 [[''tmp'', ''a.log''], [''tmp'', ''c.log''], [''tmp'', ''d.log'']]) =
   [clean_error [''tmp'', ''c.log''] (str_error PermissionError [''tmp'', ''c.log''])]"
  by code_simp

lemma demo_fault_disk:
  "foldl (after (\<lambda>p. if p = [''tmp'', ''c.log''] then Some PermissionError else None)) demo_disk
     (visited (\<lambda>i. False) 0 [[''tmp'', ''a.log''], [''tmp'', ''c.log''], [''tmp'', ''d.log'']]) =
   [(''tmp'', Dir 4096 9 [(''c.log'', File 30 3)])]"
  by code_simp

theorem clean_reports_raised_errors_witness:
  "queue (cleaner (\<lambda>p. if p = [''tmp'', ''c.log''] then Some PermissionError else None)
       (\<lambda>i. False) demo_disk [[''tmp'', ''a.log''], [''tmp'', ''c.log''], [''tmp'', ''d.log'']]) =
     [clean_error [''tmp'', ''c.log''] (str_error PermissionError [''tmp'', ''c.log'']), clean_done]
   \<and> disk (cleaner (\<lambda>p. if p = [''tmp'', ''c.log''] then Some PermissionError else None)
       (\<lambda>i. False) demo_disk [[''tmp'', ''a.log''], [''tmp'', ''c.log''], [''tmp'', ''d.log'']]) =
     [(''tmp'', Dir 4096 9 [(''c.log'', File 30 3)])]"
  using clean_reports_raised_errors
    [of "\<lambda>p. if p = [''tmp'', ''c.log''] then Some PermissionError else None" "\<lambda>i. False"
      demo_disk "[[''tmp'', ''a.log''], [''tmp'', ''c.log''], [''tmp'', ''d.log'']]",
     unfolded demo_fault_reported demo_fault_disk]
  by simp

text \<open>
  Claim C6. When the abort flag is first seen set at the check before the \<open>k\<close>-th path,
  the pass stops there: the disk is the one the first \<open>k\<close> deletions left, the events and
  the calls are those of the first \<open>k\<close> paths, and exactly one \<open>clean_done\<close> ends the
  queue.
\<close>

theorem clean_abort_partial:
  assumes "abort k" and "k < length items" and "\<forall>j < k. \<not> abort j"
  shows "filter is_clean_done (queue (cleaner fault abort d items)) = [clean_done]
    \<and> queue (cleaner fault abort d items) = reported fault d (take k items) @ [clean_done]
    \<and> disk (cleaner fault abort d items) = foldl (after fault) d (take k items)
    \<and> calls (cleaner fault abort d items) =
        concat (map (\<lambda>c. [c, Sleep (pacing_delay (length items))])
          (removed fault d (take k items)))"
proof -
  from assms have "visited abort 0 items = take k items"
    using visited_take [of k abort 0 items] by simp
  then show ?thesis
    by (simp add: cleaner_eq reported_no_done)
qed


lemma demo_abort_eval:
  "reported (\<lambda>p. None) demo_disk
     (take 1 [[''tmp'', ''a.log''], [''tmp'', ''b.tmp''], [''tmp'', ''c.log'']]) = []"
  "foldl (after (\<lambda>p. None)) demo_disk
     (take 1 [[''tmp'', ''a.log''], [''tmp'', ''b.tmp''], [''tmp'', ''c.log'']]) =
     [(''tmp'', Dir 4096 9 [(''c.log'', File 30 3), (''d.log'', File 40 4)])]"
  "removed (\<lambda>p. None) demo_disk
     (take 1 [[''tmp'', ''a.log''], [''tmp'', ''b.tmp''], [''tmp'', ''c.log'']]) =
     [Unlink [''tmp'', ''a.log'']]"
  by code_simp+

theorem clean_abort_partial_witness:
  "queue (cleaner (\<lambda>p. None) (\<lambda>i. 1 \<le> i) demo_disk
       [[''tmp'', ''a.log''], [''tmp'', ''b.tmp''], [''tmp'', ''c.log'']]) = [clean_done]
   \<and> disk (cleaner (\<lambda>p. None) (\<lambda>i. 1 \<le> i) demo_disk
       [[''tmp'', ''a.log''], [''tmp'', ''b.tmp''], [''tmp'', ''c.log'']]) =
     [(''tmp'', Dir 4096 9 [(''c.log'', File 30 3), (''d.log'', File 40 4)])]
   \<and> calls (cleaner (\<lambda>p. None) (\<lambda>i. 1 \<le> i) demo_disk
       [[''tmp'', ''a.log''], [''tmp'', ''b.tmp''], [''tmp'', ''c.log'']]) =
     [Unlink [''tmp'', ''a.log''], Sleep (1 / 2)]"
proof -
  let ?items = "[[''tmp'', ''a.log''], [''tmp'', ''b.tmp''], [''tmp'', ''c.log'']]"
  have h1: "(\<lambda>i::nat. 1 \<le> i) 1" by simp
  have h2: "1 < length ?items" by simp
  have h3: "\<forall>j < 1. \<not> (\<lambda>i::nat. 1 \<le> i) j" by simp
  from clean_abort_partial [of "\<lambda>i. 1 \<le> i" 1 ?items "\<lambda>p. None" demo_disk, OF h1 h2 h3,
      unfolded demo_abort_eval]
  show ?thesis
    by (simp add: pacing_delay_def)
qed

text \<open>
  Claim C7. The delay is 1.5 seconds divided by the number of paths, and zero for no
  path; the calls of the pass are its removals that returned normally, each followed at
  once by a sleep of exactly that delay, and nothing else.
\<close>

theorem clean_pacing:
  "calls (cleaner fault abort d items) =
     concat (map (\<lambda>c. [c, Sleep (if 0 < length items then (3 / 2) / of_nat (length items) else 0)])
       (removed fault d (visited abort 0 items)))"
  by (simp add: cleaner_eq pacing_delay_def)


lemma demo_removed:
  "removed (\<lambda>p. None) demo_disk
     (visited (\<lambda>i. False) 0 [[''tmp'', ''a.log''], [''tmp'', ''b.tmp''], [''tmp'', ''c.log'']]) =
   [Unlink [''tmp'', ''a.log''], Unlink [''tmp'', ''c.log'']]"
  by code_simp

theorem clean_pacing_witness:
  "calls (cleaner (\<lambda>p. None) (\<lambda>i. False) demo_disk
       [[''tmp'', ''a.log''], [''tmp'', ''b.tmp''], [''tmp'', ''c.log'']]) =
     [Unlink [''tmp'', ''a.log''], Sleep (1 / 2), Unlink [''tmp'', ''c.log''], Sleep (1 / 2)]"
  using clean_pacing [of "\<lambda>p. None" "\<lambda>i. False" demo_disk
      "[[''tmp'', ''a.log''], [''tmp'', ''b.tmp''], [''tmp'', ''c.log'']]", unfolded demo_removed]
  by simp

subsection \<open>Engine lifecycle\<close>

text \<open>
  Claim C9, as the code has it. \<open>scan\<close> called on an engine whose scan is running
  returns normally: nothing is rejected, the queue is replaced, and the earlier worker
  is still running beside the new one.
\<close>

theorem scan_while_running_counterexample:
  "is_running demo_core
   \<and> scan demo_core [''tmp''] =
       Inr \<lparr>queue = [], abort_event = False, thread = Some (ScannerJob [''tmp'']),
            running = [ScannerJob [''home''], ScannerJob [''tmp'']]\<rparr>"
  by (simp add: is_running_def scan_def demo_core_def)

text \<open>
  Claim C9, amended. A call to \<open>scan\<close> or \<open>clean\<close> made while an operation is running
  is accepted: it returns normally with the abort flag cleared, a fresh empty queue and
  a new worker as the engine's thread, and every worker that was running still is.
\<close>

theorem start_while_running_resets:
  assumes "is_running self"
  shows "(\<exists>self'. scan self scan_path = Inr self' \<and> queue self' = [] \<and> \<not> abort_event self'
            \<and> thread self' = Some (ScannerJob scan_path) \<and> is_running self'
            \<and> set (running self) \<subseteq> set (running self'))
       \<and> (\<exists>self'. clean self items = Inr self' \<and> queue self' = [] \<and> \<not> abort_event self'
            \<and> thread self' = Some (CleanerJob items) \<and> is_running self'
            \<and> set (running self) \<subseteq> set (running self'))"
  by (auto simp: scan_def clean_def is_running_def)

theorem start_while_running_resets_witness:
  "is_running demo_core
   \<and> (\<exists>self'. scan demo_core [''tmp''] = Inr self' \<and> queue self' = []
         \<and> thread self' = Some (ScannerJob [''tmp'']) \<and> ScannerJob [''home''] \<in> set (running self'))
   \<and> (\<exists>self'. clean demo_core [[''tmp'', ''a.log'']] = Inr self' \<and> queue self' = []
         \<and> thread self' = Some (CleanerJob [[''tmp'', ''a.log'']])
         \<and> ScannerJob [''home''] \<in> set (running self'))"
proof -
  have r: "is_running demo_core"
    by (simp add: is_running_def demo_core_def)
  have h: "ScannerJob [''home''] \<in> set (running demo_core)"
    by (simp add: demo_core_def)
  from start_while_running_resets [OF r, of "[''tmp'']" "[[''tmp'', ''a.log'']]"] r h
  show ?thesis by blast
qed

subsection \<open>Size Formatter\<close>

lemmas format_size_unfold = format_size_def fmt_1f_def tenths_def show_nat.simps

text \<open>
  Claim C8. \<open>format_size\<close> renders a byte count in the binary units B, KB, MB, GB with one
  decimal place. The four values the specification lists come out as stated. At
  \<open>2^40\<close> bytes (1024 GB) the loop divides a fourth time after the test of the last unit
  and still labels the result GB: the text is \<open>1.0 GB\<close>, a value 1024 times too small,
  where the specification keeps such a count in GB without scaling it further.
\<close>

theorem format_size_values:
  "format_size 0 = ''0.0 B'' \<and> format_size 1024 = ''1.0 KB''
   \<and> format_size 1536 = ''1.5 KB'' \<and> format_size 1073741824 = ''1.0 GB''
   \<and> format_size 1099511627776 = ''1.0 GB''"
  by (simp add: format_size_unfold)

end
